theory Spec2Isabelle
  imports Main
begin

section \<open>Values shared by the store and the relay\<close>

text \<open>
  The relay is the TypeScript server of the repository: the in-memory store
  (\<^verbatim>\<open>MemStorage\<close>, server/storage.ts) and the routes with the WebSocket hub
  (\<^verbatim>\<open>registerRoutes\<close>, server/routes.ts).

  A JavaScript number is an \<open>int\<close>, a \<^verbatim>\<open>Date\<close> is the reading of a clock (a \<open>nat\<close>),
  an opaque JSON payload (\<^verbatim>\<open>parameters\<close>, \<^verbatim>\<open>info\<close>) is its text. A field that
  may be \<^verbatim>\<open>undefined\<close> is an \<open>option\<close>. A WebSocket object is named by a handle:
  the number of sockets the server accepted before it.
\<close>

type_synonym json = string
type_synonym Date = nat
type_synonym WebSocket = nat

text \<open>JavaScript truthiness of an optional string and of an optional number.\<close>

fun truthy :: "string option \<Rightarrow> bool" where
  "truthy None = False"
| "truthy (Some s) = (s \<noteq> [])"

fun truthy_num :: "int option \<Rightarrow> bool" where
  "truthy_num None = False"
| "truthy_num (Some n) = (n \<noteq> 0)"

section \<open>The JavaScript Map\<close>

text \<open>
  A \<^verbatim>\<open>Map\<close> keeps its entries in insertion order; \<^verbatim>\<open>set\<close> on a key that is
  present replaces the value where it stands, \<^verbatim>\<open>values()\<close> lists in that order.
\<close>

type_synonym 'v Map = "(int \<times> 'v) list"

fun Map_set :: "int \<Rightarrow> 'v \<Rightarrow> 'v Map \<Rightarrow> 'v Map" where
  "Map_set k v [] = [(k, v)]"
| "Map_set k v ((k', v') # m) =
     (if k' = k then (k, v) # m else (k', v') # Map_set k v m)"

definition Map_get :: "int \<Rightarrow> 'v Map \<Rightarrow> 'v option" where
  "Map_get k m = map_of m k"

definition Map_delete :: "int \<Rightarrow> 'v Map \<Rightarrow> 'v Map" where
  "Map_delete k m = filter (\<lambda>e. fst e \<noteq> k) m"

definition Map_values :: "'v Map \<Rightarrow> 'v list" where
  "Map_values m = map snd m"

section \<open>The entity store (MemStorage)\<close>

text \<open>
  The rows of shared/schema.ts. \<^verbatim>\<open>Device\<close> is \<^verbatim>\<open>InsertDevice\<close> spread and
  extended by the store, and so are \<^verbatim>\<open>Command\<close> and \<^verbatim>\<open>Activity\<close>: each is a
  record extension. The fields carry a letter for their table, since a device, a
  command, an activity and a connection all have a \<^verbatim>\<open>deviceId\<close>. The status of
  an \<^verbatim>\<open>InsertDevice\<close> is the one its caller gives.
\<close>

record InsertDevice =
  d_name :: string
  d_deviceId :: string
  d_platform :: string
  d_os :: string
  d_ipAddress :: "string option"
  d_user :: "string option"
  d_status :: string
  d_registrationCode :: "string option"

record Device = InsertDevice +
  d_id :: int
  d_createdAt :: Date
  d_lastActive :: Date
  d_info :: json

record InsertCommand =
  c_deviceId :: string
  c_command :: string
  c_parameters :: json

record Command = InsertCommand +
  c_id :: int
  c_createdAt :: Date
  c_status :: string
  c_result :: string
  c_completedAt :: "Date option"

text \<open>The \<^verbatim>\<open>details\<close> objects the routes build.\<close>

datatype Details =
    CommandCreated int "json option"
  | CommandResult int "string option"
  | RemovedBy string

record InsertActivity =
  a_deviceId :: "string option"
  a_activityType :: string
  a_description :: string
  a_status :: "string option"
  a_details :: "Details option"

record Activity = InsertActivity +
  a_id :: int
  a_createdAt :: Date

text \<open>
  \<^verbatim>\<open>Partial<Device>\<close> and \<^verbatim>\<open>Partial<Command>\<close>, with the fields a caller in
  the repository passes or the store inspects; an absent field is \<open>None\<close>.
\<close>

record PartialDevice =
  pd_status :: "string option"
  pd_lastActive :: "Date option"
  pd_info :: "json option"

record PartialCommand =
  pc_status :: "string option"
  pc_result :: "string option"
  pc_completedAt :: "Date option option"

text \<open>
  The store, without its users, registration codes and session store, which the
  relay never touches.
\<close>

record MemStorage =
  devices :: "Device Map"
  commands :: "Command Map"
  activities :: "Activity Map"
  currentId_devices :: int
  currentId_commands :: int
  currentId_activities :: int

definition newMemStorage :: MemStorage where
  "newMemStorage = \<lparr> devices = [], commands = [], activities = [],
     currentId_devices = 1, currentId_commands = 1, currentId_activities = 1 \<rparr>"

definition getDeviceById :: "int \<Rightarrow> MemStorage \<Rightarrow> Device option" where
  "getDeviceById i st = Map_get i (devices st)"

definition getDeviceByDeviceId :: "string \<Rightarrow> MemStorage \<Rightarrow> Device option" where
  "getDeviceByDeviceId did st =
     find (\<lambda>device. d_deviceId device = did) (Map_values (devices st))"

definition createDevice :: "Date \<Rightarrow> InsertDevice \<Rightarrow> MemStorage \<Rightarrow> Device \<times> MemStorage" where
  "createDevice now device st =
     (let i = currentId_devices st;
          newDevice = \<lparr> d_name = d_name device, d_deviceId = d_deviceId device,
            d_platform = d_platform device, d_os = d_os device,
            d_ipAddress = d_ipAddress device, d_user = d_user device,
            d_status = d_status device, d_registrationCode = d_registrationCode device,
            d_id = i, d_createdAt = now, d_lastActive = now, d_info = ''{}'' \<rparr>
      in (newDevice, st\<lparr> currentId_devices := i + 1,
                          devices := Map_set i newDevice (devices st) \<rparr>))"

definition spreadDevice :: "Device \<Rightarrow> PartialDevice \<Rightarrow> Device" where
  "spreadDevice device f =
     device\<lparr> d_status := (case pd_status f of None \<Rightarrow> d_status device | Some v \<Rightarrow> v),
             d_lastActive := (case pd_lastActive f of None \<Rightarrow> d_lastActive device | Some v \<Rightarrow> v),
             d_info := (case pd_info f of None \<Rightarrow> d_info device | Some v \<Rightarrow> v) \<rparr>"

definition updateDevice :: "int \<Rightarrow> PartialDevice \<Rightarrow> MemStorage \<Rightarrow> Device option \<times> MemStorage" where
  "updateDevice i updatedFields st =
     (case Map_get i (devices st) of
        None \<Rightarrow> (None, st)
      | Some device \<Rightarrow>
          (let updatedDevice = spreadDevice device updatedFields
           in (Some updatedDevice, st\<lparr> devices := Map_set i updatedDevice (devices st) \<rparr>)))"

definition updateDeviceStatus :: "Date \<Rightarrow> string \<Rightarrow> string \<Rightarrow> MemStorage \<Rightarrow> Device option \<times> MemStorage" where
  "updateDeviceStatus now did status st =
     (case find (\<lambda>device. d_deviceId device = did) (Map_values (devices st)) of
        None \<Rightarrow> (None, st)
      | Some device \<Rightarrow>
          (let updatedDevice = device\<lparr> d_status := status, d_lastActive := now \<rparr>
           in (Some updatedDevice,
               st\<lparr> devices := Map_set (d_id device) updatedDevice (devices st) \<rparr>)))"

definition removeDevice :: "int \<Rightarrow> MemStorage \<Rightarrow> bool \<times> MemStorage" where
  "removeDevice i st =
     (Map_get i (devices st) \<noteq> None, st\<lparr> devices := Map_delete i (devices st) \<rparr>)"

definition getCommandById :: "int \<Rightarrow> MemStorage \<Rightarrow> Command option" where
  "getCommandById i st = Map_get i (commands st)"

definition createCommand :: "Date \<Rightarrow> InsertCommand \<Rightarrow> MemStorage \<Rightarrow> Command \<times> MemStorage" where
  "createCommand now command st =
     (let i = currentId_commands st;
          newCommand = \<lparr> c_deviceId = c_deviceId command, c_command = c_command command,
            c_parameters = c_parameters command,
            c_id = i, c_createdAt = now, c_status = ''pending'', c_result = '''',
            c_completedAt = None \<rparr>
      in (newCommand, st\<lparr> currentId_commands := i + 1,
                           commands := Map_set i newCommand (commands st) \<rparr>))"

definition spreadCommand :: "Command \<Rightarrow> PartialCommand \<Rightarrow> Command" where
  "spreadCommand command f =
     command\<lparr> c_status := (case pc_status f of None \<Rightarrow> c_status command | Some v \<Rightarrow> v),
              c_result := (case pc_result f of None \<Rightarrow> c_result command | Some v \<Rightarrow> v),
              c_completedAt :=
                (case pc_completedAt f of None \<Rightarrow> c_completedAt command | Some v \<Rightarrow> v) \<rparr>"

definition updateCommand :: "Date \<Rightarrow> int \<Rightarrow> PartialCommand \<Rightarrow> MemStorage \<Rightarrow> Command option \<times> MemStorage" where
  "updateCommand now i updatedFields st =
     (case Map_get i (commands st) of
        None \<Rightarrow> (None, st)
      | Some command \<Rightarrow>
          (let spread = spreadCommand command updatedFields;
               updatedCommand =
                 (if pc_status updatedFields = Some ''completed''
                     \<or> pc_status updatedFields = Some ''failed''
                  then spread\<lparr> c_completedAt := Some now \<rparr> else spread)
           in (Some updatedCommand,
               st\<lparr> commands := Map_set i updatedCommand (commands st) \<rparr>)))"

definition createActivity :: "Date \<Rightarrow> InsertActivity \<Rightarrow> MemStorage \<Rightarrow> Activity \<times> MemStorage" where
  "createActivity now activity st =
     (let i = currentId_activities st;
          newActivity = \<lparr> a_deviceId = a_deviceId activity,
            a_activityType = a_activityType activity,
            a_description = a_description activity, a_status = a_status activity,
            a_details = a_details activity, a_id = i, a_createdAt = now \<rparr>
      in (newActivity, st\<lparr> currentId_activities := i + 1,
                            activities := Map_set i newActivity (activities st) \<rparr>))"

section \<open>The connection list, broadcast and point-to-point send\<close>

datatype ReadyState = CONNECTING | OPEN | CLOSING | CLOSED

record ConnectedClient =
  ws :: WebSocket
  deviceId :: "string option"
  userId :: "int option"

text \<open>
  The messages the server writes, and those it reads. A message the server reads is
  taken at the shape \<^verbatim>\<open>SocketMessage\<close> declares for its type: AUTH with the optional
  strings \<^verbatim>\<open>token\<close> and \<^verbatim>\<open>deviceId\<close> and the optional number \<^verbatim>\<open>userId\<close> (in this
  order), COMMAND_RESPONSE with \<^verbatim>\<open>commandId\<close>, \<^verbatim>\<open>status\<close> and the optional
  \<^verbatim>\<open>result\<close>, DEVICE_INFO with \<^verbatim>\<open>info\<close>. A field that is absent is \<open>None\<close>; JSON
  values of other types in these fields are outside the model. A message of another
  type, or one that does not parse, is \<open>OTHER\<close>.
\<close>

datatype Outbound =
    COMMAND Command
  | COMMAND_STATUS_CHANGED int string "string option"
  | DEVICE_STATUS_CHANGED string string
  | DEVICE_INFO_UPDATED string json
  | DEVICE_REMOVED string

datatype Inbound =
    AUTH "string option" "string option" "int option"
  | COMMAND_RESPONSE int string "string option"
  | DEVICE_INFO json
  | OTHER

text \<open>
  The server's state. \<^verbatim>\<open>connectedClients\<close> is an array of references to the
  \<^verbatim>\<open>clientInfo\<close> objects, which the handlers of a connection keep in their closure
  and mutate: the objects live in \<open>heap\<close>, at the handle of their socket, and the
  array holds the handles. \<open>readyState\<close> is the state of each socket, \<open>sent\<close> the
  log of every \<^verbatim>\<open>ws.send\<close> in order, \<open>clock\<close> what \<^verbatim>\<open>new Date()\<close> returns.
\<close>

record State =
  connectedClients :: "WebSocket list"
  heap :: "WebSocket \<Rightarrow> ConnectedClient"
  nextWs :: WebSocket
  readyState :: "WebSocket \<Rightarrow> ReadyState"
  sent :: "(WebSocket \<times> Outbound) list"
  storage :: MemStorage
  clock :: Date

definition initial :: State where
  "initial = \<lparr> connectedClients = [],
     heap = (\<lambda>w. \<lparr> ws = w, deviceId = None, userId = None \<rparr>),
     nextWs = 0, readyState = (\<lambda>w. CONNECTING), sent = [],
     storage = newMemStorage, clock = 0 \<rparr>"

definition ws_send :: "WebSocket \<Rightarrow> Outbound \<Rightarrow> State \<Rightarrow> State" where
  "ws_send w data s = s\<lparr> sent := sent s @ [(w, data)] \<rparr>"

text \<open>What socket \<open>w\<close> was sent so far, in order.\<close>

definition received :: "State \<Rightarrow> WebSocket \<Rightarrow> Outbound list" where
  "received s w = map snd (filter (\<lambda>e. fst e = w) (sent s))"

fun forEach_broadcast :: "Outbound \<Rightarrow> WebSocket option \<Rightarrow> WebSocket list \<Rightarrow> State \<Rightarrow> State" where
  "forEach_broadcast data excludeClient [] s = s"
| "forEach_broadcast data excludeClient (r # rs) s =
     (let client = heap s r
      in forEach_broadcast data excludeClient rs
           (if Some (ws client) \<noteq> excludeClient \<and> readyState s (ws client) = OPEN
            then ws_send (ws client) data s else s))"

definition broadcastToClients :: "Outbound \<Rightarrow> WebSocket option \<Rightarrow> State \<Rightarrow> State" where
  "broadcastToClients data excludeClient s =
     forEach_broadcast data excludeClient (connectedClients s) s"

text \<open>The lookup of \<^verbatim>\<open>sendToDevice\<close>: the first entry of the array with that deviceId.\<close>

definition findByDevice :: "string \<Rightarrow> State \<Rightarrow> ConnectedClient option" where
  "findByDevice did s =
     find (\<lambda>client. deviceId client = Some did) (map (heap s) (connectedClients s))"

definition sendToDevice :: "string \<Rightarrow> Outbound \<Rightarrow> State \<Rightarrow> bool \<times> State" where
  "sendToDevice did data s =
     (case findByDevice did s of
        Some deviceClient \<Rightarrow>
          (if readyState s (ws deviceClient) = OPEN
           then (True, ws_send (ws deviceClient) data s)
           else (False, s))
      | None \<Rightarrow> (False, s))"

section \<open>The handlers of a connection\<close>

text \<open>
  The model takes one event at a time: a handler runs to its end before the next
  event is handled (the handlers await nothing but the store's promises, which are
  resolved when they are made). None of the store's methods throws, and \<^verbatim>\<open>send\<close>
  is only called on a socket that is \<open>OPEN\<close>, so the \<^verbatim>\<open>catch\<close> branches are not
  reached.
\<close>

definition quoted :: "string \<Rightarrow> string" where
  "quoted s = [CHR 0x27] @ s @ [CHR 0x27]"

text \<open>\<^verbatim>\<open>result || ''\<close>.\<close>

fun orEmpty :: "string option \<Rightarrow> string" where
  "orEmpty None = []"
| "orEmpty (Some r) = r"

text \<open>\<^verbatim>\<open>wss.on('connection')\<close>: a fresh \<^verbatim>\<open>clientInfo\<close> is pushed.\<close>

definition onConnection :: "WebSocket \<Rightarrow> State \<Rightarrow> State" where
  "onConnection w s =
     s\<lparr> heap := (heap s)(w := \<lparr> ws = w, deviceId = None, userId = None \<rparr>),
        connectedClients := connectedClients s @ [w] \<rparr>"

text \<open>
  \<^verbatim>\<open>ws.on('message')\<close> of the connection with socket \<open>w\<close>; its \<^verbatim>\<open>clientInfo\<close>
  is \<open>heap s w\<close>. The three tests of \<^verbatim>\<open>data.type\<close> exclude each other, so they are
  the cases of the message.
\<close>

fun onMessage :: "WebSocket \<Rightarrow> Inbound \<Rightarrow> State \<Rightarrow> State" where
  "onMessage w (AUTH token dataDeviceId dataUserId) s =
     (if truthy token then
        (let s1 = s\<lparr> heap := (heap s)(w := (heap s w)\<lparr> deviceId := dataDeviceId \<rparr>) \<rparr>
         in case dataDeviceId of
              None \<Rightarrow> s1
            | Some did \<Rightarrow>
                (case getDeviceByDeviceId did (storage s1) of
                   None \<Rightarrow> s1
                 | Some device \<Rightarrow>
                     (let st1 = snd (updateDeviceStatus (clock s1) did ''online'' (storage s1));
                          st2 = snd (createActivity (clock s1)
                                  \<lparr> a_deviceId = Some did, a_activityType = ''status'',
                                    a_description = ''Device connected'',
                                    a_status = Some ''completed'', a_details = None \<rparr> st1)
                      in broadcastToClients (DEVICE_STATUS_CHANGED did ''online'') (Some w)
                           (s1\<lparr> storage := st2 \<rparr>))))
      else if truthy_num dataUserId then
        s\<lparr> heap := (heap s)(w := (heap s w)\<lparr> userId := dataUserId \<rparr>) \<rparr>
      else s)"
| "onMessage w (COMMAND_RESPONSE commandId status result) s =
     (if truthy (deviceId (heap s w)) then
        (case updateCommand (clock s) commandId
                \<lparr> pc_status = Some status, pc_result = Some (orEmpty result),
                  pc_completedAt = Some (Some (clock s)) \<rparr> (storage s) of
           (None, st1) \<Rightarrow> s\<lparr> storage := st1 \<rparr>
         | (Some command, st1) \<Rightarrow>
             (let st2 = snd (createActivity (clock s)
                          \<lparr> a_deviceId = Some (c_deviceId command),
                            a_activityType = ''command'',
                            a_description = ''Command '' @ status @ '': ''
                                            @ quoted (c_command command),
                            a_status = Some status,
                            a_details = Some (CommandResult commandId result) \<rparr> st1)
              in broadcastToClients (COMMAND_STATUS_CHANGED commandId status result) None
                   (s\<lparr> storage := st2 \<rparr>)))
      else s)"
| "onMessage w (DEVICE_INFO info) s =
     (case deviceId (heap s w) of
        None \<Rightarrow> s
      | Some did \<Rightarrow>
          if did = [] then s
          else (case getDeviceByDeviceId did (storage s) of
                  None \<Rightarrow> s
                | Some device \<Rightarrow>
                    (let st1 = snd (updateDevice (d_id device)
                                 \<lparr> pd_status = None, pd_lastActive = None,
                                   pd_info = Some info \<rparr> (storage s))
                     in broadcastToClients (DEVICE_INFO_UPDATED did info) None
                          (s\<lparr> storage := st1 \<rparr>))))"
| "onMessage w OTHER s = s"

text \<open>\<^verbatim>\<open>ws.on('close')\<close> of the connection with socket \<open>w\<close>.\<close>

definition onClose :: "WebSocket \<Rightarrow> State \<Rightarrow> State" where
  "onClose w s =
     (let s1 =
        (case deviceId (heap s w) of
           None \<Rightarrow> s
         | Some did \<Rightarrow>
             if did = [] then s
             else (let st1 = snd (updateDeviceStatus (clock s) did ''offline'' (storage s));
                       st2 = snd (createActivity (clock s)
                               \<lparr> a_deviceId = Some did, a_activityType = ''status'',
                                 a_description = ''Device disconnected'',
                                 a_status = Some ''completed'', a_details = None \<rparr> st1)
                   in broadcastToClients (DEVICE_STATUS_CHANGED did ''offline'') None
                        (s\<lparr> storage := st2 \<rparr>)))
      in s1\<lparr> connectedClients :=
               filter (\<lambda>c. ws (heap s1 c) \<noteq> w) (connectedClients s1) \<rparr>)"

section \<open>The HTTP routes that reach the hub\<close>

text \<open>
  The body of a request that passed \<^verbatim>\<open>requireAuth\<close> and the validation of
  \<^verbatim>\<open>commandSchema\<close>, and the responses of the two routes.
\<close>

record CommandRequest =
  r_deviceId :: string
  r_command :: string
  r_parameters :: "json option"

datatype Response = NotFound | Created Command | Removed

definition postCommands :: "CommandRequest \<Rightarrow> State \<Rightarrow> Response \<times> State" where
  "postCommands body s =
     (let did = r_deviceId body
      in case getDeviceByDeviceId did (storage s) of
           None \<Rightarrow> (NotFound, s)
         | Some device \<Rightarrow>
             (let (newCommand, st1) = createCommand (clock s)
                     \<lparr> c_deviceId = did, c_command = r_command body,
                       c_parameters =
                         (case r_parameters body of None \<Rightarrow> ''{}'' | Some p \<Rightarrow> p) \<rparr>
                     (storage s);
                  st2 = snd (createActivity (clock s)
                          \<lparr> a_deviceId = Some did, a_activityType = ''command'',
                            a_description = ''Command created: '' @ quoted (r_command body),
                            a_status = Some ''pending'',
                            a_details =
                              Some (CommandCreated (c_id newCommand) (r_parameters body)) \<rparr>
                          st1);
                  (delivered, s2) =
                     sendToDevice did (COMMAND newCommand) (s\<lparr> storage := st2 \<rparr>);
                  s3 = (if \<not> delivered \<and> d_status device = ''online'' then
                          broadcastToClients (DEVICE_STATUS_CHANGED did ''offline'') None
                            (s2\<lparr> storage :=
                                   snd (updateDeviceStatus (clock s2) did ''offline''
                                          (storage s2)) \<rparr>)
                        else s2)
              in (Created newCommand, s3)))"

text \<open>\<^verbatim>\<open>DELETE /api/devices/:id\<close>, by the user \<open>username\<close>.\<close>

definition deleteDevice :: "int \<Rightarrow> string \<Rightarrow> State \<Rightarrow> Response \<times> State" where
  "deleteDevice i username s =
     (case getDeviceById i (storage s) of
        None \<Rightarrow> (NotFound, s)
      | Some device \<Rightarrow>
          (let st1 = snd (removeDevice i (storage s));
               st2 = snd (createActivity (clock s)
                       \<lparr> a_deviceId = Some (d_deviceId device), a_activityType = ''status'',
                         a_description = ''Device removed'', a_status = Some ''completed'',
                         a_details = Some (RemovedBy username) \<rparr> st1)
           in (Removed, broadcastToClients (DEVICE_REMOVED (d_deviceId device)) None
                          (s\<lparr> storage := st2 \<rparr>))))"

section \<open>Runs of the server\<close>

text \<open>
  What can happen to the server, one event at a time. The WebSocket library hands a
  new socket, \<open>OPEN\<close>, to the connection handler; a socket that started closing is
  \<open>CLOSING\<close> until its close event, which finds it \<open>CLOSED\<close>. \<open>CreateDevice\<close> is a
  call of the store's \<^verbatim>\<open>createDevice\<close>, \<open>Tick\<close> the passing of time.
\<close>

datatype Event =
    Connection
  | Message WebSocket Inbound
  | Closing WebSocket
  | Close WebSocket
  | PostCommands CommandRequest
  | DeleteDevice int string
  | CreateDevice InsertDevice
  | Tick

fun step :: "Event \<Rightarrow> State \<Rightarrow> State" where
  "step Connection s =
     (let w = nextWs s
      in onConnection w (s\<lparr> nextWs := w + 1, readyState := (readyState s)(w := OPEN) \<rparr>))"
| "step (Message w data) s = onMessage w data s"
| "step (Closing w) s = s\<lparr> readyState := (readyState s)(w := CLOSING) \<rparr>"
| "step (Close w) s = onClose w (s\<lparr> readyState := (readyState s)(w := CLOSED) \<rparr>)"
| "step (PostCommands body) s = snd (postCommands body s)"
| "step (DeleteDevice i username) s = snd (deleteDevice i username s)"
| "step (CreateDevice device) s =
     s\<lparr> storage := snd (createDevice (clock s) device (storage s)) \<rparr>"
| "step Tick s = s\<lparr> clock := clock s + 1 \<rparr>"

definition run :: "Event list \<Rightarrow> State \<Rightarrow> State" where
  "run evs s = foldl (\<lambda>s e. step e s) s evs"

section \<open>The connection registry of the specification\<close>

text \<open>
  The specification describes the connection list as a registry: \<open>Register\<close> adds a
  new unbound entry, \<open>BindDevice\<close> sets the device identity of an existing entry and
  does nothing for a handle that is unknown, \<open>Unregister\<close> removes the entry, and
  \<open>FindByDevice\<close> finds a handle when some live connection is bound to the identity.
  These definitions follow those words; \<open>registry_after\<close> replays the events of a run
  on the registry alone, to be compared with what the server's array holds.
\<close>

record Registry =
  reg_next :: WebSocket
  reg_entries :: "(WebSocket \<times> string option) list"

definition emptyRegistry :: Registry where
  "emptyRegistry = \<lparr> reg_next = 0, reg_entries = [] \<rparr>"

definition Register :: "Registry \<Rightarrow> Registry" where
  "Register reg = \<lparr> reg_next = reg_next reg + 1,
                     reg_entries = reg_entries reg @ [(reg_next reg, None)] \<rparr>"

definition BindDevice :: "WebSocket \<Rightarrow> string option \<Rightarrow> Registry \<Rightarrow> Registry" where
  "BindDevice h did reg =
     reg\<lparr> reg_entries := map (\<lambda>e. if fst e = h then (h, did) else e) (reg_entries reg) \<rparr>"

definition Unregister :: "WebSocket \<Rightarrow> Registry \<Rightarrow> Registry" where
  "Unregister h reg = reg\<lparr> reg_entries := filter (\<lambda>e. fst e \<noteq> h) (reg_entries reg) \<rparr>"

definition FindByDevice :: "string \<Rightarrow> Registry \<Rightarrow> bool" where
  "FindByDevice did reg = list_ex (\<lambda>e. snd e = Some did) (reg_entries reg)"

fun registry_step :: "Event \<Rightarrow> Registry \<Rightarrow> Registry" where
  "registry_step Connection reg = Register reg"
| "registry_step (Message w (AUTH token dataDeviceId dataUserId)) reg =
     (if truthy token then BindDevice w dataDeviceId reg else reg)"
| "registry_step (Close w) reg = Unregister w reg"
| "registry_step e reg = reg"

definition registry_after :: "Event list \<Rightarrow> Registry" where
  "registry_after evs = foldl (\<lambda>reg e. registry_step e reg) emptyRegistry evs"

text \<open>What the server's array holds: each entry's socket and deviceId, in order.\<close>

definition entries :: "State \<Rightarrow> (WebSocket \<times> string option) list" where
  "entries s = map (\<lambda>w. (w, deviceId (heap s w))) (connectedClients s)"

section \<open>What holds of every state the server reaches\<close>

text \<open>
  A Map of the store keeps each row under its own id, once, below the counter the
  next id comes from. Every \<^verbatim>\<open>clientInfo\<close> names its own socket, and the array lists
  the sockets in the order they were accepted, each once.
\<close>

definition Map_ok :: "('v \<Rightarrow> int) \<Rightarrow> 'v Map \<Rightarrow> int \<Rightarrow> bool" where
  "Map_ok idOf m n =
     (distinct (map fst m) \<and> (\<forall>e \<in> set m. idOf (snd e) = fst e \<and> fst e < n))"

definition storage_ok :: "MemStorage \<Rightarrow> bool" where
  "storage_ok st =
     (Map_ok d_id (devices st) (currentId_devices st)
      \<and> Map_ok c_id (commands st) (currentId_commands st))"

definition clients_ok :: "State \<Rightarrow> bool" where
  "clients_ok s =
     ((\<forall>w. ws (heap s w) = w) \<and> sorted_wrt (<) (connectedClients s)
      \<and> (\<forall>w \<in> set (connectedClients s). w < nextWs s))"

definition invariant :: "State \<Rightarrow> bool" where
  "invariant s = (clients_ok s \<and> storage_ok (storage s))"

text \<open>The events that are a COMMAND_RESPONSE naming command \<open>i\<close>.\<close>

fun is_response_for :: "int \<Rightarrow> Event \<Rightarrow> bool" where
  "is_response_for i (Message w (COMMAND_RESPONSE commandId status result)) = (commandId = i)"
| "is_response_for i e = False"

section \<open>Scenarios\<close>

text \<open>Concrete runs of the server, on which the theorems below are tried.\<close>

definition device_D1 :: InsertDevice where
  "device_D1 = \<lparr> d_name = ''Laptop'', d_deviceId = ''D1'', d_platform = ''windows'',
     d_os = ''Windows 11'', d_ipAddress = None, d_user = None, d_status = ''offline'',
     d_registrationCode = None \<rparr>"

definition auth_D1 :: Inbound where
  "auth_D1 = AUTH (Some ''token'') (Some ''D1'') None"

text \<open>One open connection, bound to D1; no device is stored.\<close>

definition bound_D1 :: State where
  "bound_D1 = run [Connection, Message 0 auth_D1] initial"

text \<open>A request to send the command ping to D1.\<close>

definition ping_D1 :: CommandRequest where
  "ping_D1 = \<lparr> r_deviceId = ''D1'', r_command = ''ping'', r_parameters = None \<rparr>"

text \<open>
  Device D1 is stored and was marked online by its connection, socket 1, which has
  started closing; socket 0 is a dashboard.
\<close>

definition stale_D1 :: "Event list" where
  "stale_D1 = [CreateDevice device_D1, Connection, Connection, Message 1 auth_D1, Closing 1]"

text \<open>The row of D1 in the store once its connection has marked it online at time 0.\<close>

definition online_D1 :: Device where
  "online_D1 = \<lparr> d_name = ''Laptop'', d_deviceId = ''D1'', d_platform = ''windows'',
     d_os = ''Windows 11'', d_ipAddress = None, d_user = None, d_status = ''online'',
     d_registrationCode = None, d_id = 1, d_createdAt = 0, d_lastActive = 0,
     d_info = ''{}'' \<rparr>"

text \<open>The command for D1 fails to be delivered, then socket 1 closes.\<close>

definition two_offline :: "Event list" where
  "two_offline = stale_D1 @ [PostCommands ping_D1, Close 1]"

text \<open>
  D1 connects, is sent a command and answers it as completed; later it answers the
  same command again, as failed.
\<close>

definition completed_once :: "Event list" where
  "completed_once = [CreateDevice device_D1, Connection, Message 0 auth_D1,
     PostCommands ping_D1, Message 0 (COMMAND_RESPONSE 1 ''completed'' (Some ''pong''))]"

definition completed_then_failed :: "Event list" where
  "completed_then_failed =
     completed_once @ [Tick, Message 0 (COMMAND_RESPONSE 1 ''failed'' (Some ''late''))]"

text \<open>Two open connections, both bound to D1; socket 1 was accepted after socket 0.\<close>

definition two_bound :: "Event list" where
  "two_bound = [Connection, Connection, Message 0 auth_D1, Message 1 auth_D1]"

text \<open>
  A dashboard on socket 0, and socket 1 bound to the deviceId ghost, for which no
  device is stored.
\<close>

definition ghost_bound :: "Event list" where
  "ghost_bound = [Connection, Connection, Message 1 (AUTH (Some ''token'') (Some ''ghost'') None)]"

text \<open>D1 connects at time 0 and sends its info at time 1.\<close>

definition info_later :: "Event list" where
  "info_later = [CreateDevice device_D1, Connection, Message 0 auth_D1, Tick,
     Message 0 (DEVICE_INFO ''{battery:50}'')]"

text \<open>An AUTH message whose token field is the empty string.\<close>

definition empty_token :: "Event list" where
  "empty_token = [Connection, Message 0 (AUTH (Some '''') (Some ''D1'') None)]"

text \<open>
  Socket 0 is bound to D1 and has started closing (its close event has not come yet)
  when socket 1 connects and is bound to D1 too.
\<close>

definition shadowed :: "Event list" where
  "shadowed = [Connection, Message 0 auth_D1, Closing 0, Connection, Message 1 auth_D1]"

section \<open>The Map and the store keep their rows in order\<close>

lemma Map_get_Map_set: "Map_get k' (Map_set k v m) = (if k' = k then Some v else Map_get k' m)"
  by (induction m) (auto simp: Map_get_def)

lemma set_Map_set: "set (Map_set k v m) \<subseteq> insert (k, v) (set m)"
  by (induction m) (auto split: if_splits)

lemma fst_Map_set: "fst ` set (Map_set k v m) = insert k (fst ` set m)"
proof (induction m)
  case Nil
  then show ?case by simp
next
  case (Cons e m)
  then show ?case by (cases e) (simp add: insert_commute)
qed

lemma distinct_Map_set: "distinct (map fst m) \<Longrightarrow> distinct (map fst (Map_set k v m))"
proof (induction m)
  case Nil
  then show ?case by simp
next
  case (Cons e m)
  obtain k' v' where e: "e = (k', v')" by (cases e)
  have "k' \<noteq> k \<Longrightarrow> k' \<notin> fst ` set (Map_set k v m)"
    using Cons.prems by (auto simp: fst_Map_set e)
  with Cons show ?case by (auto simp: e)
qed

lemma Map_ok_set: "Map_ok idOf m n \<Longrightarrow> idOf v = k \<Longrightarrow> k < n \<Longrightarrow> Map_ok idOf (Map_set k v m) n"
  unfolding Map_ok_def using set_Map_set[of k v m] by (auto simp: distinct_Map_set)

lemma Map_ok_mono: "Map_ok idOf m n \<Longrightarrow> n \<le> n' \<Longrightarrow> Map_ok idOf m n'"
  unfolding Map_ok_def by fastforce

lemma Map_ok_delete: "Map_ok idOf m n \<Longrightarrow> Map_ok idOf (Map_delete k m) n"
  unfolding Map_ok_def Map_delete_def by (auto simp: distinct_map_filter)

lemma Map_ok_get: "Map_ok idOf m n \<Longrightarrow> Map_get k m = Some v \<Longrightarrow> idOf v = k \<and> k < n"
  unfolding Map_ok_def Map_get_def by (auto dest!: map_of_SomeD)

lemma Map_ok_values: "Map_ok idOf m n \<Longrightarrow> v \<in> set (Map_values m) \<Longrightarrow> idOf v < n \<and> Map_get (idOf v) m = Some v"
  unfolding Map_ok_def Map_get_def Map_values_def by force


lemma find_values_get:
  "Map_ok idOf m n \<Longrightarrow> find P (Map_values m) = Some v \<Longrightarrow> idOf v < n \<and> Map_get (idOf v) m = Some v"
  by (rule Map_ok_values) (auto simp: find_Some_iff)

lemma storage_ok_createDevice: "storage_ok st \<Longrightarrow> storage_ok (snd (createDevice now d st))"
  unfolding storage_ok_def createDevice_def Let_def
  by (auto intro!: Map_ok_set intro: Map_ok_mono)

lemma storage_ok_updateDevice: "storage_ok st \<Longrightarrow> storage_ok (snd (updateDevice i f st))"
  unfolding storage_ok_def updateDevice_def Let_def spreadDevice_def
  by (auto split: option.splits intro!: Map_ok_set dest: Map_ok_get)

lemma storage_ok_updateDeviceStatus:
  "storage_ok st \<Longrightarrow> storage_ok (snd (updateDeviceStatus now did status st))"
  unfolding storage_ok_def updateDeviceStatus_def Let_def
  by (auto split: option.splits intro!: Map_ok_set dest: find_values_get)

lemma storage_ok_removeDevice: "storage_ok st \<Longrightarrow> storage_ok (snd (removeDevice i st))"
  unfolding storage_ok_def removeDevice_def by (auto intro: Map_ok_delete)

lemma storage_ok_createCommand: "storage_ok st \<Longrightarrow> storage_ok (snd (createCommand now c st))"
  unfolding storage_ok_def createCommand_def Let_def
  by (auto intro!: Map_ok_set intro: Map_ok_mono)

lemma storage_ok_updateCommand: "storage_ok st \<Longrightarrow> storage_ok (snd (updateCommand now i f st))"
  unfolding storage_ok_def updateCommand_def Let_def spreadCommand_def
  by (auto split: option.splits intro!: Map_ok_set dest: Map_ok_get)

lemma storage_ok_createActivity: "storage_ok st \<Longrightarrow> storage_ok (snd (createActivity now a st))"
  unfolding storage_ok_def createActivity_def Let_def by auto

lemmas storage_ok_intros = storage_ok_createDevice storage_ok_updateDevice
  storage_ok_updateDeviceStatus storage_ok_removeDevice storage_ok_createCommand
  storage_ok_updateCommand storage_ok_createActivity

section \<open>Broadcast and send change nothing but the log of sends\<close>

lemma forEach_broadcast_eq:
  "forEach_broadcast data ex rs s =
     s\<lparr> sent := sent s @ map (\<lambda>r. (ws (heap s r), data))
                          (filter (\<lambda>r. Some (ws (heap s r)) \<noteq> ex
                                       \<and> readyState s (ws (heap s r)) = OPEN) rs) \<rparr>"
  by (induction rs arbitrary: s) (simp_all add: ws_send_def Let_def)

lemma broadcastToClients_eq:
  "broadcastToClients data ex s =
     s\<lparr> sent := sent s @ map (\<lambda>r. (ws (heap s r), data))
                          (filter (\<lambda>r. Some (ws (heap s r)) \<noteq> ex
                                       \<and> readyState s (ws (heap s r)) = OPEN)
                             (connectedClients s)) \<rparr>"
  by (simp add: broadcastToClients_def forEach_broadcast_eq)

lemma filter_eq_distinct:
  "distinct rs \<Longrightarrow> filter (\<lambda>r. P r \<and> r = w) rs = (if w \<in> set rs \<and> P w then [w] else [])"
  by (induction rs) auto

lemma received_broadcastToClients:
  assumes "clients_ok s"
  shows "received (broadcastToClients data ex s) w =
           received s w @ (if w \<in> set (connectedClients s) \<and> Some w \<noteq> ex
                              \<and> readyState s w = OPEN then [data] else [])"
proof -
  have d: "distinct (connectedClients s)"
    using assms by (simp add: clients_ok_def strict_sorted_iff)
  have w: "\<And>r. ws (heap s r) = r" using assms by (simp add: clients_ok_def)
  show ?thesis
    using filter_eq_distinct[OF d, of "\<lambda>r. Some r \<noteq> ex \<and> readyState s r = OPEN" w]
    by (simp add: broadcastToClients_eq received_def w filter_map o_def)
qed


lemma broadcastToClients_frame [simp]:
  "connectedClients (broadcastToClients data ex s) = connectedClients s"
  "heap (broadcastToClients data ex s) = heap s"
  "nextWs (broadcastToClients data ex s) = nextWs s"
  "readyState (broadcastToClients data ex s) = readyState s"
  "storage (broadcastToClients data ex s) = storage s"
  "clock (broadcastToClients data ex s) = clock s"
  by (simp_all add: broadcastToClients_eq)

lemma sendToDevice_frame [simp]:
  "connectedClients (snd (sendToDevice did data s)) = connectedClients s"
  "heap (snd (sendToDevice did data s)) = heap s"
  "nextWs (snd (sendToDevice did data s)) = nextWs s"
  "readyState (snd (sendToDevice did data s)) = readyState s"
  "storage (snd (sendToDevice did data s)) = storage s"
  "clock (snd (sendToDevice did data s)) = clock s"
  by (simp_all add: sendToDevice_def ws_send_def split: option.splits)

lemma clients_ok_simps [simp]:
  "clients_ok (broadcastToClients data ex s) = clients_ok s"
  "clients_ok (snd (sendToDevice did data s)) = clients_ok s"
  "clients_ok (s\<lparr> storage := st \<rparr>) = clients_ok s"
  "clients_ok (s\<lparr> clock := t \<rparr>) = clients_ok s"
  "clients_ok (s\<lparr> readyState := rs \<rparr>) = clients_ok s"
  "clients_ok (s\<lparr> sent := xs \<rparr>) = clients_ok s"
  by (simp_all add: clients_ok_def)

lemma clients_ok_bind:
  "clients_ok s \<Longrightarrow> clients_ok (s\<lparr> heap := (heap s)(w := (heap s w)\<lparr> deviceId := d \<rparr>) \<rparr>)"
  "clients_ok s \<Longrightarrow> clients_ok (s\<lparr> heap := (heap s)(w := (heap s w)\<lparr> userId := u \<rparr>) \<rparr>)"
  by (simp_all add: clients_ok_def)

section \<open>Every handler keeps the states well formed\<close>

lemma clients_ok_filter:
  "clients_ok s \<Longrightarrow> clients_ok (s\<lparr> connectedClients := filter P (connectedClients s) \<rparr>)"
  by (simp add: clients_ok_def sorted_wrt_filter)

lemma invariant_onMessage: "invariant s \<Longrightarrow> invariant (onMessage w data s)"
proof (cases data)
  case (AUTH token d u)
  assume "invariant s"
  then show ?thesis
    by (simp add: AUTH invariant_def Let_def clients_ok_bind storage_ok_intros
             split: option.splits)
next
  case (COMMAND_RESPONSE i st r)
  assume "invariant s"
  then show ?thesis
    by (simp add: COMMAND_RESPONSE invariant_def Let_def case_prod_beta storage_ok_intros
             split: option.splits)
next
  case (DEVICE_INFO info)
  assume "invariant s"
  then show ?thesis
    by (simp add: DEVICE_INFO invariant_def Let_def storage_ok_intros
             split: option.splits)
next
  case OTHER
  assume "invariant s"
  then show ?thesis by (simp add: OTHER)
qed

lemma invariant_onClose: "invariant s \<Longrightarrow> invariant (onClose w s)"
  by (simp add: invariant_def onClose_def Let_def storage_ok_intros clients_ok_filter
           split: option.splits)

lemma invariant_postCommands: "invariant s \<Longrightarrow> invariant (snd (postCommands body s))"
  by (simp add: invariant_def postCommands_def Let_def case_prod_beta storage_ok_intros
           split: option.splits)

lemma invariant_deleteDevice: "invariant s \<Longrightarrow> invariant (snd (deleteDevice i u s))"
  by (simp add: invariant_def deleteDevice_def Let_def storage_ok_intros
           split: option.splits)

lemma invariant_onConnection:
  "invariant s \<Longrightarrow>
   invariant (onConnection (nextWs s)
     (s\<lparr> nextWs := Suc (nextWs s), readyState := (readyState s)(nextWs s := OPEN) \<rparr>))"
  by (auto simp: invariant_def clients_ok_def onConnection_def sorted_wrt_append less_Suc_eq)

lemma invariant_step: "invariant s \<Longrightarrow> invariant (step e s)"
proof (cases e)
  case Connection
  assume "invariant s"
  then show ?thesis by (simp add: Connection Let_def invariant_onConnection)
next
  case (Message w data)
  assume "invariant s"
  then show ?thesis by (simp add: Message invariant_onMessage)
next
  case (Closing w)
  assume "invariant s"
  then show ?thesis by (simp add: Closing invariant_def)
next
  case (Close w)
  assume "invariant s"
  then have "invariant (s\<lparr> readyState := (readyState s)(w := CLOSED) \<rparr>)"
    by (simp add: invariant_def)
  then show ?thesis by (simp add: Close invariant_onClose)
next
  case (PostCommands body)
  assume "invariant s"
  then show ?thesis by (simp add: PostCommands invariant_postCommands)
next
  case (DeleteDevice i u)
  assume "invariant s"
  then show ?thesis by (simp add: DeleteDevice invariant_deleteDevice)
next
  case (CreateDevice d)
  assume "invariant s"
  then show ?thesis by (simp add: CreateDevice invariant_def storage_ok_intros)
next
  case Tick
  assume "invariant s"
  then show ?thesis by (simp add: Tick invariant_def)
qed

lemma run_Nil [simp]: "run [] s = s"
  by (simp add: run_def)

lemma run_snoc [simp]: "run (evs @ [e]) s = step e (run evs s)"
  by (simp add: run_def)

lemma run_Cons: "run (e # evs) s = run evs (step e s)"
  by (simp add: run_def)

lemma invariant_initial: "invariant initial"
  by (simp add: invariant_def initial_def clients_ok_def storage_ok_def newMemStorage_def
        Map_ok_def)

lemma invariant_run: "invariant (run evs initial)"
  by (induction evs rule: rev_induct) (simp_all add: invariant_initial invariant_step)


section \<open>The array is the registry of the specification\<close>

lemma onMessage_frame [simp]:
  "connectedClients (onMessage w data s) = connectedClients s"
  "nextWs (onMessage w data s) = nextWs s"
  "readyState (onMessage w data s) = readyState s"
  "clock (onMessage w data s) = clock s"
  by (cases data; simp add: Let_def case_prod_beta split: option.splits)+

lemma heap_onMessage:
  "heap (onMessage w data s) =
     (case data of
        AUTH token d u \<Rightarrow>
          if truthy token then (heap s)(w := (heap s w)\<lparr> deviceId := d \<rparr>)
          else if truthy_num u then (heap s)(w := (heap s w)\<lparr> userId := u \<rparr>)
          else heap s
      | _ \<Rightarrow> heap s)"
  by (cases data; simp add: Let_def case_prod_beta split: option.splits)

lemma postCommands_frame [simp]:
  "connectedClients (snd (postCommands body s)) = connectedClients s"
  "heap (snd (postCommands body s)) = heap s"
  "nextWs (snd (postCommands body s)) = nextWs s"
  "readyState (snd (postCommands body s)) = readyState s"
  "clock (snd (postCommands body s)) = clock s"
  by (simp_all add: postCommands_def Let_def case_prod_beta split: option.splits)

lemma deleteDevice_frame [simp]:
  "connectedClients (snd (deleteDevice i u s)) = connectedClients s"
  "heap (snd (deleteDevice i u s)) = heap s"
  "nextWs (snd (deleteDevice i u s)) = nextWs s"
  "readyState (snd (deleteDevice i u s)) = readyState s"
  "clock (snd (deleteDevice i u s)) = clock s"
  by (simp_all add: deleteDevice_def Let_def split: option.splits)

lemma onClose_frame [simp]:
  "heap (onClose w s) = heap s"
  "nextWs (onClose w s) = nextWs s"
  "readyState (onClose w s) = readyState s"
  "clock (onClose w s) = clock s"
  by (simp_all add: onClose_def Let_def split: option.splits)

lemma connectedClients_onClose:
  "connectedClients (onClose w s) = filter (\<lambda>c. ws (heap s c) \<noteq> w) (connectedClients s)"
  by (simp add: onClose_def Let_def split: option.splits)

lemma entries_step:
  assumes "clients_ok s"
  shows "entries (step e s) = reg_entries (registry_step e \<lparr> reg_next = nextWs s, reg_entries = entries s \<rparr>)
         \<and> nextWs (step e s) = reg_next (registry_step e \<lparr> reg_next = nextWs s, reg_entries = entries s \<rparr>)"
proof (cases e)
  case Connection
  have "\<forall>w \<in> set (connectedClients s). w \<noteq> nextWs s"
    using assms by (auto simp: clients_ok_def)
  then show ?thesis
    by (simp add: Connection entries_def onConnection_def Register_def Let_def)
next
  case (Message w data)
  show ?thesis
  proof (cases data)
    case (AUTH token d u)
    then show ?thesis
      by (simp add: Message entries_def heap_onMessage BindDevice_def o_def del: onMessage.simps)
  qed (simp_all add: Message entries_def heap_onMessage del: onMessage.simps)
next
  case (Close w)
  have "\<And>c. ws (heap s c) = c" using assms by (simp add: clients_ok_def)
  then show ?thesis
    by (simp add: Close entries_def connectedClients_onClose Unregister_def filter_map o_def)
qed (simp_all add: entries_def)


lemma registry_after_snoc:
  "registry_after (evs @ [e]) = registry_step e (registry_after evs)"
  by (simp add: registry_after_def)

lemma registry_refines:
  "registry_after evs = \<lparr> reg_next = nextWs (run evs initial),
                           reg_entries = entries (run evs initial) \<rparr>"
proof (induction evs rule: rev_induct)
  case Nil
  show ?case
    by (simp add: registry_after_def emptyRegistry_def entries_def initial_def)
next
  case (snoc e evs)
  have ok: "clients_ok (run evs initial)"
    using invariant_run[of evs] by (simp add: invariant_def)
  show ?case
    using entries_step[OF ok, of e]
    by (simp add: registry_after_snoc snoc.IH del: step.simps)
qed

lemma find_Some_set: "find P xs = Some x \<Longrightarrow> x \<in> set xs \<and> P x"
  by (induction xs) (auto split: if_splits)

lemma findByDevice_Some:
  "findByDevice did s = Some c \<Longrightarrow>
     \<exists>w \<in> set (connectedClients s). c = heap s w \<and> deviceId c = Some did"
  by (auto simp: findByDevice_def dest!: find_Some_set)

lemma findByDevice_None_iff:
  "(findByDevice did s = None) = (\<forall>w \<in> set (connectedClients s). deviceId (heap s w) \<noteq> Some did)"
  by (auto simp: findByDevice_def find_None_iff)

text \<open>
  Claim C1. After every sequence of events (connections registering, AUTH messages
  binding a deviceId, closes unregistering, and everything else the server handles),
  the lookup of \<^verbatim>\<open>sendToDevice\<close> finds a connection for a deviceId exactly when some
  entry that was registered and not yet removed is bound to that deviceId.
\<close>

theorem find_by_device_iff_live_binding:
  "(findByDevice did (run evs initial) \<noteq> None) = FindByDevice did (registry_after evs)"
  by (auto simp: findByDevice_None_iff registry_refines FindByDevice_def entries_def
                 list_ex_iff)

theorem find_by_device_iff_live_binding_witness:
  "findByDevice ''D1'' (run shadowed initial) \<noteq> None
   \<and> FindByDevice ''D1'' (registry_after shadowed)
   \<and> findByDevice ''D1'' (run (shadowed @ [Close 0, Close 1]) initial) = None
   \<and> \<not> FindByDevice ''D1'' (registry_after (shadowed @ [Close 0, Close 1]))"
proof -
  have h1: "FindByDevice ''D1'' (registry_after shadowed)" by code_simp
  have h2: "\<not> FindByDevice ''D1'' (registry_after (shadowed @ [Close 0, Close 1]))"
    by code_simp
  show ?thesis
    using find_by_device_iff_live_binding[of "''D1''" shadowed]
          find_by_device_iff_live_binding[of "''D1''" "shadowed @ [Close 0, Close 1]"] h1 h2
    by blast
qed

section \<open>Broadcast\<close>

text \<open>
  Claim C2. In every state the server reaches, \<^verbatim>\<open>broadcastToClients\<close> writes the
  message exactly once to every registered socket that is \<open>OPEN\<close> and is not the
  excluded one, and writes nothing to any other socket: what a socket has received
  grows by that one message, or not at all.
\<close>

theorem broadcastToClients_exactly_once:
  "received (broadcastToClients data excludeClient (run evs initial)) w =
     received (run evs initial) w @
       (if w \<in> set (connectedClients (run evs initial)) \<and> Some w \<noteq> excludeClient
           \<and> readyState (run evs initial) w = OPEN
        then [data] else [])"
  using invariant_run[of evs] by (simp add: invariant_def received_broadcastToClients)

theorem broadcastToClients_exactly_once_witness:
  "received (broadcastToClients (DEVICE_REMOVED ''D2'') (Some 1) (run two_bound initial)) 0
     = received (run two_bound initial) 0 @ [DEVICE_REMOVED ''D2'']
   \<and> received (broadcastToClients (DEVICE_REMOVED ''D2'') (Some 1) (run two_bound initial)) 1
     = received (run two_bound initial) 1
   \<and> received (broadcastToClients (DEVICE_REMOVED ''D2'') None (run shadowed initial)) 0
     = received (run shadowed initial) 0"
proof -
  have h1: "0 \<in> set (connectedClients (run two_bound initial))
            \<and> readyState (run two_bound initial) 0 = OPEN" by code_simp
  have h2: "readyState (run shadowed initial) 0 \<noteq> OPEN" by code_simp
  show ?thesis
    using broadcastToClients_exactly_once[of "DEVICE_REMOVED ''D2''" "Some 1" two_bound 0]
          broadcastToClients_exactly_once[of "DEVICE_REMOVED ''D2''" "Some 1" two_bound 1]
          broadcastToClients_exactly_once[of "DEVICE_REMOVED ''D2''" None shadowed 0] h1 h2
    by simp
qed

section \<open>Point-to-point send\<close>

text \<open>
  Claim C3. \<^verbatim>\<open>sendToDevice\<close> returns false, and sends nothing, whenever no registered
  connection is bound to the deviceId; when it returns true, a registered connection
  bound to the deviceId has an \<open>OPEN\<close> socket and the message was written to it.
\<close>

theorem sendToDevice_result:
  "((\<forall>w \<in> set (connectedClients s). deviceId (heap s w) \<noteq> Some did)
      \<longrightarrow> sendToDevice did data s = (False, s))
   \<and> (fst (sendToDevice did data s)
      \<longrightarrow> (\<exists>w \<in> set (connectedClients s).
             deviceId (heap s w) = Some did \<and> readyState s (ws (heap s w)) = OPEN
             \<and> snd (sendToDevice did data s) = ws_send (ws (heap s w)) data s))"
proof (cases "findByDevice did s")
  case None
  then show ?thesis by (simp add: sendToDevice_def)
next
  case (Some c)
  then obtain w where "w \<in> set (connectedClients s)" "c = heap s w" "deviceId c = Some did"
    by (auto dest: findByDevice_Some)
  with Some show ?thesis by (auto simp: sendToDevice_def)
qed

theorem sendToDevice_result_witness:
  "sendToDevice ''D1'' (DEVICE_REMOVED ''D2'') initial = (False, initial)
   \<and> (\<exists>w \<in> set (connectedClients bound_D1).
         deviceId (heap bound_D1 w) = Some ''D1''
         \<and> readyState bound_D1 (ws (heap bound_D1 w)) = OPEN
         \<and> snd (sendToDevice ''D1'' (DEVICE_REMOVED ''D2'') bound_D1)
             = ws_send (ws (heap bound_D1 w)) (DEVICE_REMOVED ''D2'') bound_D1)"
proof -
  have h1: "\<forall>w \<in> set (connectedClients initial). deviceId (heap initial w) \<noteq> Some ''D1''"
    by (simp add: initial_def)
  have h2: "fst (sendToDevice ''D1'' (DEVICE_REMOVED ''D2'') bound_D1)"
    by code_simp
  show ?thesis
    using sendToDevice_result[of initial "''D1''" "DEVICE_REMOVED ''D2''"]
          sendToDevice_result[of bound_D1 "''D1''" "DEVICE_REMOVED ''D2''"] h1 h2
    by blast
qed

section \<open>Each method of the store touches its own table\<close>

lemma createActivity_frame [simp]:
  "devices (snd (createActivity now a st)) = devices st"
  "commands (snd (createActivity now a st)) = commands st"
  "currentId_devices (snd (createActivity now a st)) = currentId_devices st"
  "currentId_commands (snd (createActivity now a st)) = currentId_commands st"
  by (simp_all add: createActivity_def Let_def)

lemma createCommand_frame [simp]:
  "devices (snd (createCommand now c st)) = devices st"
  "activities (snd (createCommand now c st)) = activities st"
  "currentId_devices (snd (createCommand now c st)) = currentId_devices st"
  by (simp_all add: createCommand_def Let_def)

lemma updateCommand_frame [simp]:
  "devices (snd (updateCommand now i f st)) = devices st"
  "activities (snd (updateCommand now i f st)) = activities st"
  "currentId_devices (snd (updateCommand now i f st)) = currentId_devices st"
  "currentId_commands (snd (updateCommand now i f st)) = currentId_commands st"
  by (simp_all add: updateCommand_def Let_def split: option.splits)

lemma updateDeviceStatus_frame [simp]:
  "commands (snd (updateDeviceStatus now did status st)) = commands st"
  "activities (snd (updateDeviceStatus now did status st)) = activities st"
  "currentId_devices (snd (updateDeviceStatus now did status st)) = currentId_devices st"
  "currentId_commands (snd (updateDeviceStatus now did status st)) = currentId_commands st"
  by (simp_all add: updateDeviceStatus_def Let_def split: option.splits)

lemma updateDevice_frame [simp]:
  "commands (snd (updateDevice i f st)) = commands st"
  "activities (snd (updateDevice i f st)) = activities st"
  "currentId_devices (snd (updateDevice i f st)) = currentId_devices st"
  "currentId_commands (snd (updateDevice i f st)) = currentId_commands st"
  by (simp_all add: updateDevice_def Let_def split: option.splits)

lemma removeDevice_frame [simp]:
  "commands (snd (removeDevice i st)) = commands st"
  "activities (snd (removeDevice i st)) = activities st"
  "currentId_devices (snd (removeDevice i st)) = currentId_devices st"
  "currentId_commands (snd (removeDevice i st)) = currentId_commands st"
  by (simp_all add: removeDevice_def)

lemma createDevice_frame [simp]:
  "commands (snd (createDevice now d st)) = commands st"
  "activities (snd (createDevice now d st)) = activities st"
  "currentId_commands (snd (createDevice now d st)) = currentId_commands st"
  by (simp_all add: createDevice_def Let_def)

lemma getDeviceByDeviceId_frame [simp]:
  "getDeviceByDeviceId did (snd (createActivity now a st)) = getDeviceByDeviceId did st"
  "getDeviceByDeviceId did (snd (createCommand now c st)) = getDeviceByDeviceId did st"
  "getDeviceByDeviceId did (snd (updateCommand now i f st)) = getDeviceByDeviceId did st"
  by (simp_all add: getDeviceByDeviceId_def)

lemma getCommandById_frame [simp]:
  "getCommandById i (snd (createActivity now a st)) = getCommandById i st"
  "getCommandById i (snd (updateDeviceStatus now did status st)) = getCommandById i st"
  "getCommandById i (snd (updateDevice j f st)) = getCommandById i st"
  "getCommandById i (snd (removeDevice j st)) = getCommandById i st"
  "getCommandById i (snd (createDevice now d st)) = getCommandById i st"
  by (simp_all add: getCommandById_def)

section \<open>A status update is seen by the next lookup\<close>

lemma find_Map_set_found:
  assumes "Map_ok idOf m n" "find P (Map_values m) = Some v" "P v'"
  shows "find P (Map_values (Map_set (idOf v) v' m)) = Some v'"
  using assms
proof (induction m)
  case Nil
  then show ?case by (simp add: Map_values_def)
next
  case (Cons e m)
  obtain k x where e: "e = (k, x)" by (cases e)
  have ok: "Map_ok idOf m n" using Cons.prems(1) by (simp add: Map_ok_def)
  show ?case
  proof (cases "P x")
    case True
    then have "x = v" using Cons.prems(2) by (simp add: e Map_values_def)
    moreover have "idOf x = k" using Cons.prems(1) by (simp add: e Map_ok_def)
    ultimately show ?thesis using Cons.prems(3) by (simp add: e Map_values_def)
  next
    case False
    then have f: "find P (Map_values m) = Some v"
      using Cons.prems(2) by (simp add: e Map_values_def)
    then have "v \<in> set (Map_values m)" by (auto dest: find_Some_set)
    then have "idOf v \<in> fst ` set m"
      using ok by (force simp: Map_ok_def Map_values_def)
    moreover have "k \<notin> fst ` set m" using Cons.prems(1) by (simp add: e Map_ok_def)
    ultimately have "k \<noteq> idOf v" by blast
    then show ?thesis
      using False Cons.IH[OF ok f Cons.prems(3)] by (simp add: e Map_values_def)
  qed
qed

lemma getDeviceByDeviceId_updateDeviceStatus:
  assumes "storage_ok st" "getDeviceByDeviceId did st = Some device"
  shows "getDeviceByDeviceId did (snd (updateDeviceStatus now did status st))
           = Some (device\<lparr> d_status := status, d_lastActive := now \<rparr>)"
proof -
  have ok: "Map_ok d_id (devices st) (currentId_devices st)"
    using assms(1) by (simp add: storage_ok_def)
  have f: "find (\<lambda>device. d_deviceId device = did) (Map_values (devices st)) = Some device"
    using assms(2) by (simp add: getDeviceByDeviceId_def)
  have "d_deviceId device = did" using f by (auto dest: find_Some_set)
  then show ?thesis
    using find_Map_set_found[OF ok f, of "device\<lparr> d_status := status, d_lastActive := now \<rparr>"] f
    by (simp add: getDeviceByDeviceId_def updateDeviceStatus_def Let_def)
qed

section \<open>Creating a command\<close>

lemma sendToDevice_storage:
  "sendToDevice did data (s\<lparr> storage := st \<rparr>)
     = (fst (sendToDevice did data s), (snd (sendToDevice did data s))\<lparr> storage := st \<rparr>)"
  by (simp add: sendToDevice_def findByDevice_def ws_send_def split: option.splits)

lemma sendToDevice_not_delivered:
  "\<not> fst (sendToDevice did data s) \<Longrightarrow> snd (sendToDevice did data s) = s"
  by (simp add: sendToDevice_def split: option.splits if_splits)

lemma received_simps [simp]:
  "received (s\<lparr> storage := st \<rparr>) w = received s w"
  "received (s\<lparr> readyState := rs \<rparr>) w = received s w"
  "received (s\<lparr> clock := t \<rparr>) w = received s w"
  "received (s\<lparr> heap := h \<rparr>) w = received s w"
  "received (s\<lparr> connectedClients := cs \<rparr>) w = received s w"
  by (simp_all add: received_def)

lemma postCommands_found:
  assumes inv: "invariant s"
    and dev: "getDeviceByDeviceId (r_deviceId body) (storage s) = Some device"
  defines "ins \<equiv> \<lparr> c_deviceId = r_deviceId body, c_command = r_command body,
                     c_parameters = (case r_parameters body of None \<Rightarrow> ''{}'' | Some p \<Rightarrow> p) \<rparr>"
  defines "cmd \<equiv> fst (createCommand (clock s) ins (storage s))"
  defines "s' \<equiv> snd (postCommands body s)"
  shows "fst (postCommands body s) = Created cmd"
    and "c_status cmd = ''pending''"
    and "getCommandById (c_id cmd) (storage s') = Some cmd"
    and "\<not> fst (sendToDevice (r_deviceId body) (COMMAND cmd) s) \<Longrightarrow> d_status device = ''online''
         \<Longrightarrow> map_option d_status (getDeviceByDeviceId (r_deviceId body) (storage s')) = Some ''offline''
           \<and> (\<forall>w. received s' w = received s w @
                  (if w \<in> set (connectedClients s) \<and> readyState s w = OPEN
                   then [DEVICE_STATUS_CHANGED (r_deviceId body) ''offline''] else []))"
    and "\<not> (\<not> fst (sendToDevice (r_deviceId body) (COMMAND cmd) s) \<and> d_status device = ''online'')
         \<Longrightarrow> devices (storage s') = devices (storage s)
           \<and> sent s' = sent (snd (sendToDevice (r_deviceId body) (COMMAND cmd) s))"
proof -
  have ok: "clients_ok s" and sok: "storage_ok (storage s)"
    using inv by (simp_all add: invariant_def)
  show "fst (postCommands body s) = Created cmd"
    using dev by (simp add: postCommands_def Let_def case_prod_beta cmd_def ins_def)
  show "c_status cmd = ''pending''"
    by (simp add: cmd_def createCommand_def Let_def)
  have get: "getCommandById (c_id cmd) (snd (createCommand (clock s) ins (storage s))) = Some cmd"
    by (simp add: cmd_def createCommand_def Let_def getCommandById_def Map_get_Map_set)
  show "getCommandById (c_id cmd) (storage s') = Some cmd"
    using dev get
    by (simp add: s'_def postCommands_def Let_def case_prod_beta cmd_def ins_def
          sendToDevice_storage)
  {
    assume nd: "\<not> fst (sendToDevice (r_deviceId body) (COMMAND cmd) s)"
       and on: "d_status device = ''online''"
    define st2 where "st2 = snd (createActivity (clock s)
        \<lparr> a_deviceId = Some (r_deviceId body), a_activityType = ''command'',
          a_description = ''Command created: '' @ quoted (r_command body),
          a_status = Some ''pending'',
          a_details = Some (CommandCreated (c_id cmd) (r_parameters body)) \<rparr>
        (snd (createCommand (clock s) ins (storage s))))"
    have s': "s' = broadcastToClients (DEVICE_STATUS_CHANGED (r_deviceId body) ''offline'') None
                 (s\<lparr> storage := snd (updateDeviceStatus (clock s) (r_deviceId body) ''offline'' st2) \<rparr>)"
      using dev nd on
      by (simp add: s'_def postCommands_def Let_def case_prod_beta cmd_def ins_def
            sendToDevice_storage sendToDevice_not_delivered st2_def)
    have st2ok: "storage_ok st2"
      unfolding st2_def by (intro storage_ok_intros sok)
    have dev2: "getDeviceByDeviceId (r_deviceId body) st2 = Some device"
      using dev by (simp add: st2_def)
    show "map_option d_status (getDeviceByDeviceId (r_deviceId body) (storage s')) = Some ''offline''
           \<and> (\<forall>w. received s' w = received s w @
                  (if w \<in> set (connectedClients s) \<and> readyState s w = OPEN
                   then [DEVICE_STATUS_CHANGED (r_deviceId body) ''offline''] else []))"
      using ok by (simp add: s' getDeviceByDeviceId_updateDeviceStatus[OF st2ok dev2]
                     received_broadcastToClients)
  }
  {
    assume "\<not> (\<not> fst (sendToDevice (r_deviceId body) (COMMAND cmd) s) \<and> d_status device = ''online'')"
    then show "devices (storage s') = devices (storage s)
           \<and> sent s' = sent (snd (sendToDevice (r_deviceId body) (COMMAND cmd) s))"
      using dev
      by (auto simp: s'_def postCommands_def Let_def case_prod_beta cmd_def ins_def
            sendToDevice_storage)
  }
qed

text \<open>
  Claim C4. In every state the server reaches, \<^verbatim>\<open>POST /api/commands\<close> for a device
  that is stored answers with the new command; the command is stored with status
  pending, whether or not it was delivered. When \<^verbatim>\<open>sendToDevice\<close> returned false and
  the stored status was online, the device is offline afterwards and every registered
  \<open>OPEN\<close> socket received one DEVICE_STATUS_CHANGED(offline), no other socket anything.
  Otherwise (the command was delivered, or the stored status was not online: offline
  already) no device is updated and nothing is sent but the command itself.
\<close>

theorem postCommands_pending_and_self_heal:
  assumes "s = run evs initial"
    and "getDeviceByDeviceId (r_deviceId body) (storage s) = Some device"
    and "s' = snd (postCommands body s)"
  shows "\<exists>cmd. fst (postCommands body s) = Created cmd
           \<and> c_status cmd = ''pending''
           \<and> getCommandById (c_id cmd) (storage s') = Some cmd
           \<and> (if \<not> fst (sendToDevice (r_deviceId body) (COMMAND cmd) s)
                  \<and> d_status device = ''online''
               then map_option d_status (getDeviceByDeviceId (r_deviceId body) (storage s'))
                      = Some ''offline''
                    \<and> (\<forall>w. received s' w = received s w @
                           (if w \<in> set (connectedClients s) \<and> readyState s w = OPEN
                            then [DEVICE_STATUS_CHANGED (r_deviceId body) ''offline'']
                            else []))
               else devices (storage s') = devices (storage s)
                    \<and> sent s' = sent (snd (sendToDevice (r_deviceId body) (COMMAND cmd) s)))"
proof -
  have inv: "invariant s" using assms(1) by (simp add: invariant_run)
  show ?thesis
    using postCommands_found[OF inv assms(2)] unfolding assms(3)
    by (intro exI conjI; (rule refl)?) (simp_all split del: if_split, auto)
qed

theorem postCommands_pending_and_self_heal_witness:
  "\<exists>cmd. fst (postCommands ping_D1 (run stale_D1 initial)) = Created cmd
      \<and> c_status cmd = ''pending''
      \<and> getCommandById (c_id cmd)
          (storage (snd (postCommands ping_D1 (run stale_D1 initial)))) = Some cmd
      \<and> (if \<not> fst (sendToDevice (r_deviceId ping_D1) (COMMAND cmd) (run stale_D1 initial))
             \<and> d_status online_D1 = ''online''
          then map_option d_status
                 (getDeviceByDeviceId (r_deviceId ping_D1)
                    (storage (snd (postCommands ping_D1 (run stale_D1 initial)))))
                 = Some ''offline''
               \<and> (\<forall>w. received (snd (postCommands ping_D1 (run stale_D1 initial))) w
                        = received (run stale_D1 initial) w @
                      (if w \<in> set (connectedClients (run stale_D1 initial))
                          \<and> readyState (run stale_D1 initial) w = OPEN
                       then [DEVICE_STATUS_CHANGED (r_deviceId ping_D1) ''offline'']
                       else []))
          else devices (storage (snd (postCommands ping_D1 (run stale_D1 initial))))
                 = devices (storage (run stale_D1 initial))
               \<and> sent (snd (postCommands ping_D1 (run stale_D1 initial)))
                 = sent (snd (sendToDevice (r_deviceId ping_D1) (COMMAND cmd)
                               (run stale_D1 initial))))"
proof -
  have h: "getDeviceByDeviceId (r_deviceId ping_D1) (storage (run stale_D1 initial))
             = Some online_D1"
    by code_simp
  show ?thesis
    by (rule postCommands_pending_and_self_heal[OF refl h refl])
qed

section \<open>Closing a device connection\<close>

lemma step_Close_bound:
  assumes inv: "invariant s"
    and bound: "deviceId (heap s w) = Some did" "did \<noteq> []"
  shows "step (Close w) s =
           (broadcastToClients (DEVICE_STATUS_CHANGED did ''offline'') None
              (s\<lparr> readyState := (readyState s)(w := CLOSED),
                   storage := snd (createActivity (clock s)
                      \<lparr> a_deviceId = Some did, a_activityType = ''status'',
                        a_description = ''Device disconnected'',
                        a_status = Some ''completed'', a_details = None \<rparr>
                      (snd (updateDeviceStatus (clock s) did ''offline'' (storage s)))) \<rparr>))
           \<lparr> connectedClients := filter (\<lambda>c. c \<noteq> w) (connectedClients s) \<rparr>"
proof -
  have "\<And>c. ws (heap s c) = c" using inv by (simp add: invariant_def clients_ok_def)
  then show ?thesis using bound by (simp add: onClose_def Let_def)
qed

text \<open>
  What the close handler does by itself. In every state the server reaches, when a
  connection bound to a deviceId that is not the empty string closes, the device, if it
  is stored, is offline afterwards, the connection is no longer registered, and every
  other registered \<open>OPEN\<close> socket receives DEVICE_STATUS_CHANGED(offline) exactly once.
  The handler tests \<^verbatim>\<open>clientInfo.deviceId\<close> for truthiness, so a connection bound to
  the empty string is outside this statement, and it does not read the stored status.
\<close>

theorem close_broadcasts_offline_once:
  assumes "s = run evs initial"
    and "deviceId (heap s w) = Some did" and "did \<noteq> []"
    and "s' = step (Close w) s"
  shows "(getDeviceByDeviceId did (storage s) \<noteq> None
            \<longrightarrow> map_option d_status (getDeviceByDeviceId did (storage s')) = Some ''offline'')
         \<and> (\<forall>v. received s' v = received s v @
                (if v \<in> set (connectedClients s) \<and> v \<noteq> w \<and> readyState s v = OPEN
                 then [DEVICE_STATUS_CHANGED did ''offline''] else []))
         \<and> w \<notin> set (connectedClients s')"
proof -
  have inv: "invariant s" using assms(1) by (simp add: invariant_run)
  then have ok: "clients_ok s" and sok: "storage_ok (storage s)"
    by (simp_all add: invariant_def)
  note eq = step_Close_bound[OF inv assms(2,3), folded assms(4)]
  have a: "getDeviceByDeviceId did (storage s) \<noteq> None
            \<longrightarrow> map_option d_status (getDeviceByDeviceId did (storage s')) = Some ''offline''"
    using getDeviceByDeviceId_updateDeviceStatus[OF sok, of did _ "clock s" "''offline''"]
    by (auto simp: eq)
  have b: "\<forall>v. received s' v = received s v @
                (if v \<in> set (connectedClients s) \<and> v \<noteq> w \<and> readyState s v = OPEN
                 then [DEVICE_STATUS_CHANGED did ''offline''] else [])"
    using ok by (simp add: eq received_broadcastToClients)
  have c: "w \<notin> set (connectedClients s')"
    by (simp add: eq)
  from a b c show ?thesis by blast
qed

theorem close_broadcasts_offline_once_witness:
  "(getDeviceByDeviceId ''D1'' (storage (run stale_D1 initial)) \<noteq> None
      \<and> map_option d_status
           (getDeviceByDeviceId ''D1'' (storage (step (Close 1) (run stale_D1 initial))))
          = Some ''offline'')
   \<and> (\<forall>v. received (step (Close 1) (run stale_D1 initial)) v
             = received (run stale_D1 initial) v @
                (if v \<in> set (connectedClients (run stale_D1 initial)) \<and> v \<noteq> 1
                    \<and> readyState (run stale_D1 initial) v = OPEN
                 then [DEVICE_STATUS_CHANGED ''D1'' ''offline''] else []))
   \<and> 1 \<notin> set (connectedClients (step (Close 1) (run stale_D1 initial)))"
proof -
  have h1: "deviceId (heap (run stale_D1 initial) 1) = Some ''D1''" by code_simp
  have h2: "''D1'' \<noteq> []" by simp
  have h3: "getDeviceByDeviceId ''D1'' (storage (run stale_D1 initial)) \<noteq> None" by code_simp
  show ?thesis
    using close_broadcasts_offline_once[OF refl h1 h2 refl] h3 by blast
qed

text \<open>
  Claim C5: after a device-bound connection closes, the device is offline and exactly
  one DEVICE_STATUS_CHANGED(offline) is broadcast, one transition and not two, also
  when a failed command delivery is detected as well as the close. The code breaks
  this. \<^verbatim>\<open>POST /api/commands\<close> makes the offline transition only when the stored status
  is online, but the close handler makes it without reading the stored status. Here
  the device is recorded online and its socket is closing when a command is posted: the
  failed delivery marks it offline and broadcasts, and the close that follows
  broadcasts offline again. The dashboard on socket 0 has received two
  DEVICE_STATUS_CHANGED(offline).
\<close>

theorem two_offline_broadcasts:
  "received (run two_offline initial) 0 =
     [DEVICE_STATUS_CHANGED ''D1'' ''online'', DEVICE_STATUS_CHANGED ''D1'' ''offline'',
      DEVICE_STATUS_CHANGED ''D1'' ''offline'']"
  by code_simp

section \<open>What changes a stored command\<close>

lemma getCommandById_updateCommand_other:
  "i \<noteq> j \<Longrightarrow> getCommandById i (snd (updateCommand now j f st)) = getCommandById i st"
  by (simp add: getCommandById_def updateCommand_def Let_def Map_get_Map_set
           split: option.splits)

lemma getCommandById_createCommand:
  assumes "storage_ok st" "getCommandById i st = Some c"
  shows "getCommandById i (snd (createCommand now ins st)) = Some c"
proof -
  have "i < currentId_commands st"
    using assms Map_ok_get[of c_id "commands st" "currentId_commands st" i c]
    by (simp add: storage_ok_def getCommandById_def)
  then show ?thesis
    using assms(2) by (simp add: getCommandById_def createCommand_def Let_def Map_get_Map_set)
qed

lemma getCommandById_onMessage:
  assumes "\<not> is_response_for i (Message w data)"
  shows "getCommandById i (storage (onMessage w data s)) = getCommandById i (storage s)"
proof (cases data)
  case (AUTH token d u)
  then show ?thesis by (simp add: Let_def split: option.splits)
next
  case (COMMAND_RESPONSE j st r)
  then have "i \<noteq> j" using assms by auto
  then show ?thesis
    by (simp add: COMMAND_RESPONSE Let_def case_prod_beta getCommandById_updateCommand_other
             split: option.splits)
next
  case (DEVICE_INFO info)
  then show ?thesis by (simp add: Let_def split: option.splits)
next
  case OTHER
  then show ?thesis by simp
qed

lemma getCommandById_onClose:
  "getCommandById i (storage (onClose w s)) = getCommandById i (storage s)"
  by (simp add: onClose_def Let_def split: option.splits)

lemma getCommandById_deleteDevice:
  "getCommandById i (storage (snd (deleteDevice j u s))) = getCommandById i (storage s)"
  by (simp add: deleteDevice_def Let_def split: option.splits)

lemma getCommandById_postCommands:
  assumes "storage_ok (storage s)" "getCommandById i (storage s) = Some c"
  shows "getCommandById i (storage (snd (postCommands body s))) = Some c"
  using assms
  by (simp add: postCommands_def Let_def case_prod_beta getCommandById_createCommand
           split: option.splits)

lemma getCommandById_response:
  assumes "getCommandById i (storage s) = Some c"
  shows "getCommandById i (storage (onMessage w (COMMAND_RESPONSE i status result) s)) =
           (if truthy (deviceId (heap s w))
            then Some (c\<lparr> c_status := status, c_result := orEmpty result,
                         c_completedAt := Some (clock s) \<rparr>)
            else Some c)"
  using assms
  by (simp add: Let_def case_prod_beta updateCommand_def spreadCommand_def getCommandById_def
        Map_get_Map_set)

text \<open>
  Claim C6, as amended. In every state the server reaches, a stored command is changed by
  no event but a COMMAND_RESPONSE that names its id and arrives on a connection whose
  deviceId is truthy (bound, and not to the empty string): every other event leaves the
  command as it is, and so does such a response on a connection that is unbound or
  bound to the empty string. A response on a connection with a truthy deviceId
  overwrites the command's status, result and completedAt, also when the command is
  completed or failed already.
\<close>

theorem command_changed_only_by_response:
  assumes "s = run evs initial" and "getCommandById i (storage s) = Some c"
  shows "(\<not> is_response_for i e \<longrightarrow> getCommandById i (storage (step e s)) = Some c)
       \<and> (truthy (deviceId (heap s w)) \<longrightarrow>
            getCommandById i (storage (step (Message w (COMMAND_RESPONSE i status result)) s))
              = Some (c\<lparr> c_status := status, c_result := orEmpty result,
                           c_completedAt := Some (clock s) \<rparr>))
       \<and> (\<not> truthy (deviceId (heap s w)) \<longrightarrow>
            getCommandById i (storage (step (Message w (COMMAND_RESPONSE i status result)) s))
              = Some c)"
proof -
  have sok: "storage_ok (storage s)"
    using assms(1) invariant_run[of evs] by (simp add: invariant_def)
  have a: "getCommandById i (storage (step e s)) = Some c" if "\<not> is_response_for i e"
  proof (cases e)
    case (Message w data)
    then show ?thesis using that assms(2) by (simp add: getCommandById_onMessage)
  next
    case (PostCommands body)
    then show ?thesis using assms(2) sok by (simp add: getCommandById_postCommands)
  qed (simp_all add: assms(2) getCommandById_onClose getCommandById_deleteDevice Let_def
         onConnection_def)
  show ?thesis
    using a getCommandById_response[OF assms(2), of w status result]
    by (simp del: onMessage.simps)
qed

theorem command_changed_only_by_response_witness:
  "getCommandById 1 (storage (step Tick (run completed_once initial)))
     = getCommandById 1 (storage (run completed_once initial))
   \<and> map_option c_status (getCommandById 1 (storage (run completed_once initial)))
       = Some ''completed''
   \<and> map_option c_status
        (getCommandById 1 (storage (step (Message 0 (COMMAND_RESPONSE 1 ''failed'' None))
                                      (run completed_once initial))))
       = Some ''failed''
   \<and> getCommandById 1 (storage (step (Message 1 (COMMAND_RESPONSE 1 ''failed'' None))
                                     (run (completed_once @ [Connection]) initial)))
       = getCommandById 1 (storage (run (completed_once @ [Connection]) initial))"
proof -
  define c where "c = \<lparr> c_deviceId = ''D1'', c_command = ''ping'', c_parameters = ''{}'',
    c_id = 1, c_createdAt = 0, c_status = ''completed'', c_result = ''pong'',
    c_completedAt = Some 0 \<rparr>"
  have c: "getCommandById 1 (storage (run completed_once initial)) = Some c"
    unfolding c_def by code_simp
  have st: "c_status c = ''completed''" by (simp add: c_def)
  have h1: "\<not> is_response_for 1 Tick" by simp
  have h2: "truthy (deviceId (heap (run completed_once initial) 0))" by code_simp
  have c': "getCommandById 1 (storage (run (completed_once @ [Connection]) initial)) = Some c"
    unfolding c_def by code_simp
  have h3: "\<not> truthy (deviceId (heap (run (completed_once @ [Connection]) initial) 1))"
    by code_simp
  show ?thesis
    using command_changed_only_by_response[OF refl c, of Tick 0 "''failed''" None]
          command_changed_only_by_response[OF refl c', of Tick 1 "''failed''" None]
          h1 h2 h3 c c' st
    by (simp del: onMessage.simps run_snoc)
qed

text \<open>
  Claim C6 as stated fails: the command is completed with result pong at time 0, and a
  second COMMAND_RESPONSE makes it failed with result late and completedAt 1.
\<close>

theorem terminal_command_overwritten:
  "map_option c_status (getCommandById 1 (storage (run completed_once initial)))
     = Some ''completed''
   \<and> map_option c_result (getCommandById 1 (storage (run completed_once initial)))
     = Some ''pong''
   \<and> map_option c_completedAt (getCommandById 1 (storage (run completed_once initial)))
     = Some (Some 0)
   \<and> map_option c_status (getCommandById 1 (storage (run completed_then_failed initial)))
     = Some ''failed''
   \<and> map_option c_result (getCommandById 1 (storage (run completed_then_failed initial)))
     = Some ''late''
   \<and> map_option c_completedAt (getCommandById 1 (storage (run completed_then_failed initial)))
     = Some (Some 1)"
  by code_simp

section \<open>Which connection the lookup addresses\<close>

lemma find_sorted_least:
  assumes "sorted_wrt (<) cs" "\<And>c. ws (h c) = c" "find Q (map h cs) = Some x"
  shows "ws x \<in> set cs \<and> Q x \<and> x = h (ws x) \<and> (\<forall>w \<in> set cs. Q (h w) \<longrightarrow> ws x \<le> w)"
  using assms(1,3)
proof (induction cs)
  case Nil
  then show ?case by simp
next
  case (Cons c cs)
  show ?case
  proof (cases "Q (h c)")
    case True
    then have "x = h c" using Cons.prems(2) by simp
    then show ?thesis using True Cons.prems(1) assms(2) by (auto simp: less_imp_le)
  next
    case False
    then have "find Q (map h cs) = Some x" using Cons.prems(2) by simp
    moreover have "sorted_wrt (<) cs" using Cons.prems(1) by simp
    ultimately show ?thesis using Cons.IH False by auto
  qed
qed

text \<open>
  Claim C7, as amended. In every state the server reaches, the connection the lookup of
  \<^verbatim>\<open>sendToDevice\<close> finds is registered and bound to the deviceId, and no registered
  connection bound to the same deviceId was accepted before it (sockets are numbered
  in the order the server accepted them): the earliest registered wins.
\<close>

theorem lookup_finds_earliest_registered:
  assumes "s = run evs initial" and "findByDevice did s = Some client"
  shows "ws client \<in> set (connectedClients s)
         \<and> heap s (ws client) = client
         \<and> deviceId client = Some did
         \<and> (\<forall>w \<in> set (connectedClients s). deviceId (heap s w) = Some did \<longrightarrow> ws client \<le> w)"
proof -
  have ok: "clients_ok s" using assms(1) invariant_run[of evs] by (simp add: invariant_def)
  show ?thesis
    using find_sorted_least[of "connectedClients s" "heap s" "\<lambda>c. deviceId c = Some did" client]
          ok assms(2)
    by (simp add: clients_ok_def findByDevice_def)
qed

theorem lookup_finds_earliest_registered_witness:
  "findByDevice ''D1'' (run two_bound initial)
     = Some \<lparr> ws = 0, deviceId = Some ''D1'', userId = None \<rparr>
   \<and> 1 \<in> set (connectedClients (run two_bound initial))
   \<and> deviceId (heap (run two_bound initial) 1) = Some ''D1''
   \<and> ws \<lparr> ws = 0, deviceId = Some ''D1'', userId = None \<rparr>
       \<in> set (connectedClients (run two_bound initial))
   \<and> ws \<lparr> ws = 0, deviceId = Some ''D1'', userId = None \<rparr> \<le> 1"
proof -
  have h: "findByDevice ''D1'' (run two_bound initial)
             = Some \<lparr> ws = 0, deviceId = Some ''D1'', userId = None \<rparr>"
    by code_simp
  have h1: "1 \<in> set (connectedClients (run two_bound initial))" by code_simp
  have h2: "deviceId (heap (run two_bound initial) 1) = Some ''D1''" by code_simp
  show ?thesis
    using lookup_finds_earliest_registered[OF refl h] h h1 h2 by blast
qed

text \<open>
  Claim C7 as stated fails: with sockets 0 and 1 both registered, open and bound to D1,
  the lookup finds socket 0, and a message sent to D1 is written to socket 0 and not
  to socket 1, the most recently registered.
\<close>

theorem lookup_not_most_recent:
  "connectedClients (run two_bound initial) = [0, 1]
   \<and> deviceId (heap (run two_bound initial) 0) = Some ''D1''
   \<and> deviceId (heap (run two_bound initial) 1) = Some ''D1''
   \<and> readyState (run two_bound initial) 1 = OPEN
   \<and> map_option ws (findByDevice ''D1'' (run two_bound initial)) = Some 0
   \<and> received (snd (sendToDevice ''D1'' (DEVICE_REMOVED ''D2'') (run two_bound initial))) 0
       = [DEVICE_REMOVED ''D2'']
   \<and> received (snd (sendToDevice ''D1'' (DEVICE_REMOVED ''D2'') (run two_bound initial))) 1
       = []"
  by code_simp

section \<open>Operations that name an entity the store does not have\<close>

text \<open>
  A COMMAND_RESPONSE for a command that is not stored, and a DEVICE_INFO from a
  connection whose device is not stored, leave the whole state as it was.
\<close>

lemma response_for_unknown_command_is_noop:
  "getCommandById commandId (storage s) = None
   \<Longrightarrow> onMessage w (COMMAND_RESPONSE commandId status result) s = s"
  by (simp add: getCommandById_def updateCommand_def)

lemma info_for_unknown_device_is_noop:
  "deviceId (heap s w) = Some did \<Longrightarrow> getDeviceByDeviceId did (storage s) = None
   \<Longrightarrow> onMessage w (DEVICE_INFO info) s = s"
  by simp

text \<open>
  Claim C8: an operation that names a command or a device the store does not have
  changes nothing in the store and broadcasts nothing. This holds for those messages,
  but not for the close of a connection bound to a deviceId with no Device record: the
  close handler does not look the device up. Here
  no device ghost is stored, no activity is stored and nothing was sent; after socket 1
  closes, an activity Device disconnected is stored and the dashboard on socket 0 was
  sent DEVICE_STATUS_CHANGED(ghost, offline).
\<close>

theorem close_of_unknown_device_logs_and_broadcasts:
  "getDeviceByDeviceId ''ghost'' (storage (run ghost_bound initial)) = None
   \<and> activities (storage (run ghost_bound initial)) = []
   \<and> sent (run ghost_bound initial) = []
   \<and> map snd (activities (storage (step (Close 1) (run ghost_bound initial))))
       = [\<lparr> a_deviceId = Some ''ghost'', a_activityType = ''status'',
            a_description = ''Device disconnected'', a_status = Some ''completed'',
            a_details = None, a_id = 1, a_createdAt = 0 \<rparr>]
   \<and> sent (step (Close 1) (run ghost_bound initial))
       = [(0, DEVICE_STATUS_CHANGED ''ghost'' ''offline'')]"
  by code_simp

section \<open>The lastActive timestamp\<close>

lemma Map_set_same_field:
  "Map_get k m = Some v \<Longrightarrow> f v' = f v
   \<Longrightarrow> map (\<lambda>e. f (snd e)) (Map_set k v' m) = map (\<lambda>e. f (snd e)) m"
  by (induction m) (auto simp: Map_get_def split: if_splits)

lemma lastActive_updateDevice_info:
  "map (\<lambda>e. d_lastActive (snd e))
       (devices (snd (updateDevice i \<lparr> pd_status = None, pd_lastActive = None, pd_info = Some info \<rparr> st)))
     = map (\<lambda>e. d_lastActive (snd e)) (devices st)"
  by (simp add: updateDevice_def Let_def spreadDevice_def Map_set_same_field
           split: option.splits)

text \<open>
  Claim C9, as amended. For a device stored in a state the server reaches,
  \<^verbatim>\<open>updateDeviceStatus\<close> sets the status and sets lastActive to the time \<open>now\<close> that
  \<^verbatim>\<open>new Date()\<close> gave it; handling a DEVICE_INFO message leaves the lastActive of every
  stored device as it was.
\<close>

theorem lastActive_set_by_status_not_by_info:
  assumes "s = run evs initial" and "getDeviceByDeviceId did (storage s) = Some device"
  shows "getDeviceByDeviceId did (snd (updateDeviceStatus now did status (storage s)))
           = Some (device\<lparr> d_status := status, d_lastActive := now \<rparr>)
         \<and> map (\<lambda>e. d_lastActive (snd e)) (devices (storage (step (Message w (DEVICE_INFO info)) s)))
           = map (\<lambda>e. d_lastActive (snd e)) (devices (storage s))"
proof -
  have sok: "storage_ok (storage s)"
    using assms(1) invariant_run[of evs] by (simp add: invariant_def)
  have "map (\<lambda>e. d_lastActive (snd e)) (devices (storage (onMessage w (DEVICE_INFO info) s)))
           = map (\<lambda>e. d_lastActive (snd e)) (devices (storage s))"
    by (simp add: Let_def lastActive_updateDevice_info split: option.splits)
  then show ?thesis
    using getDeviceByDeviceId_updateDeviceStatus[OF sok assms(2)] by simp
qed

theorem lastActive_set_by_status_not_by_info_witness:
  "map_option d_lastActive
     (getDeviceByDeviceId ''D1''
        (snd (updateDeviceStatus 7 ''D1'' ''offline'' (storage (run info_later initial)))))
     = Some 7
   \<and> map (\<lambda>e. d_lastActive (snd e))
        (devices (storage (step (Message 0 (DEVICE_INFO ''{}'')) (run info_later initial))))
     = map (\<lambda>e. d_lastActive (snd e)) (devices (storage (run info_later initial)))"
proof -
  have h: "getDeviceByDeviceId ''D1'' (storage (run info_later initial))
             = Some (online_D1\<lparr> d_info := ''{battery:50}'' \<rparr>)"
    by code_simp
  show ?thesis
    using lastActive_set_by_status_not_by_info[OF refl h, of 7 "''offline''" 0 "''{}''"]
    by simp
qed

text \<open>
  Claim C9 as stated fails: D1 sends its info at time 1; the info is stored, and
  lastActive is still 0, the time the device connected.
\<close>

theorem info_update_keeps_lastActive:
  "clock (run info_later initial) = 1
   \<and> map_option d_info (getDeviceByDeviceId ''D1'' (storage (run info_later initial)))
       = Some ''{battery:50}''
   \<and> map_option d_lastActive (getDeviceByDeviceId ''D1'' (storage (run info_later initial)))
       = Some 0"
  by code_simp

section \<open>Binding a connection by AUTH\<close>

lemma find_sorted_first:
  assumes "sorted_wrt (<) cs" "w \<in> set cs" "Q (h w)" "\<forall>v \<in> set cs. v < w \<longrightarrow> \<not> Q (h v)"
  shows "find Q (map h cs) = Some (h w)"
  using assms(1,2,4)
proof (induction cs)
  case Nil
  then show ?case by simp
next
  case (Cons c cs)
  show ?case
  proof (cases "c = w")
    case True
    then show ?thesis using assms(3) by simp
  next
    case False
    then have "w \<in> set cs" using Cons.prems(2) by simp
    moreover from this have "c < w" using Cons.prems(1) by simp
    ultimately show ?thesis using Cons by simp
  qed
qed

lemma storage_onMessage_AUTH_unknown:
  "getDeviceByDeviceId did (storage s) = None
   \<Longrightarrow> storage (onMessage w (AUTH token (Some did) u) s) = storage s
     \<and> sent (onMessage w (AUTH token (Some did) u) s) = sent s"
  by simp

text \<open>
  Claim C10, as amended. In every state the server reaches, an AUTH message whose token
  is truthy (present and not the empty string) binds the connection to the deviceId it
  carries, whether or not the connection was bound before and whether or not a device
  with that deviceId is stored. When none is stored, the store is left as it was (no
  activity is created) and nothing is sent. The connection is addressable afterwards
  when it is registered, its socket is \<open>OPEN\<close>, and no connection registered before it
  is bound to the same deviceId: then \<^verbatim>\<open>sendToDevice\<close> returns true and writes to it.
\<close>

theorem auth_binds_and_makes_addressable:
  assumes "s = run evs initial" and "truthy token"
    and "s' = step (Message w (AUTH token (Some did) dataUserId)) s"
  shows "deviceId (heap s' w) = Some did
         \<and> (getDeviceByDeviceId did (storage s) = None
              \<longrightarrow> storage s' = storage s \<and> sent s' = sent s)
         \<and> (w \<in> set (connectedClients s) \<and> readyState s w = OPEN
              \<and> (\<forall>v \<in> set (connectedClients s). v < w \<longrightarrow> deviceId (heap s v) \<noteq> Some did)
              \<longrightarrow> sendToDevice did data s' = (True, ws_send w data s'))"
proof -
  have ok: "clients_ok s" using assms(1) invariant_run[of evs] by (simp add: invariant_def)
  have s': "s' = onMessage w (AUTH token (Some did) dataUserId) s"
    using assms(3) by simp
  have hp: "heap s' = (heap s)(w := (heap s w)\<lparr> deviceId := Some did \<rparr>)"
    using assms(2) by (simp add: s' heap_onMessage del: onMessage.simps)
  have a: "deviceId (heap s' w) = Some did" by (simp add: hp)
  have b: "getDeviceByDeviceId did (storage s) = None
            \<longrightarrow> storage s' = storage s \<and> sent s' = sent s"
    unfolding s' using storage_onMessage_AUTH_unknown by blast
  have c: "sendToDevice did data s' = (True, ws_send w data s')"
    if reg: "w \<in> set (connectedClients s)" and op: "readyState s w = OPEN"
      and first: "\<forall>v \<in> set (connectedClients s). v < w \<longrightarrow> deviceId (heap s v) \<noteq> Some did"
  proof -
    have "\<forall>v \<in> set (connectedClients s). v < w \<longrightarrow> deviceId (heap s' v) \<noteq> Some did"
      using first by (simp add: hp)
    then have "findByDevice did s' = Some (heap s' w)"
      using find_sorted_first[of "connectedClients s" w "\<lambda>c. deviceId c = Some did" "heap s'"]
            ok reg a
      by (simp add: findByDevice_def clients_ok_def s' del: onMessage.simps)
    moreover have "ws (heap s' w) = w" using ok by (simp add: hp clients_ok_def)
    moreover have "readyState s' w = OPEN" using op by (simp add: s' del: onMessage.simps)
    ultimately show ?thesis by (simp add: sendToDevice_def)
  qed
  from a b c show ?thesis by blast
qed

theorem auth_binds_and_makes_addressable_witness:
  "deviceId (heap (step (Message 1 auth_D1) (run [Connection, Connection] initial)) 1)
     = Some ''D1''
   \<and> storage (step (Message 1 auth_D1) (run [Connection, Connection] initial))
       = storage (run [Connection, Connection] initial)
   \<and> sent (step (Message 1 auth_D1) (run [Connection, Connection] initial))
       = sent (run [Connection, Connection] initial)
   \<and> sendToDevice ''D1'' (DEVICE_REMOVED ''D2'')
        (step (Message 1 auth_D1) (run [Connection, Connection] initial))
       = (True, ws_send 1 (DEVICE_REMOVED ''D2'')
                  (step (Message 1 auth_D1) (run [Connection, Connection] initial)))"
proof -
  have h1: "truthy (Some ''token'')" by simp
  have h2: "getDeviceByDeviceId ''D1'' (storage (run [Connection, Connection] initial)) = None"
    by code_simp
  have h3: "1 \<in> set (connectedClients (run [Connection, Connection] initial))" by code_simp
  have h4: "readyState (run [Connection, Connection] initial) 1 = OPEN" by code_simp
  have h5: "\<forall>v \<in> set (connectedClients (run [Connection, Connection] initial)).
              v < 1 \<longrightarrow> deviceId (heap (run [Connection, Connection] initial) v) \<noteq> Some ''D1''"
    by code_simp
  show ?thesis
    using auth_binds_and_makes_addressable[where evs = "[Connection, Connection]"
            and w = 1 and did = "''D1''" and dataUserId = None
            and data = "DEVICE_REMOVED ''D2''", OF refl h1 refl]
          h2 h3 h4 h5
    unfolding auth_D1_def by blast
qed

text \<open>
  Claim C10 as stated fails twice. A message that carries the token field with the
  empty string does not bind the connection. And a connection bound by AUTH is not
  addressable while an older connection bound to the same deviceId is still registered:
  socket 1 is registered, open and bound to D1, yet \<^verbatim>\<open>sendToDevice\<close> for D1 finds the
  closing socket 0 and returns false.
\<close>

theorem auth_does_not_always_make_addressable:
  "deviceId (heap (run empty_token initial) 0) = None
   \<and> deviceId (heap (run shadowed initial) 1) = Some ''D1''
   \<and> 1 \<in> set (connectedClients (run shadowed initial))
   \<and> readyState (run shadowed initial) 1 = OPEN
   \<and> \<not> fst (sendToDevice ''D1'' (DEVICE_REMOVED ''D2'') (run shadowed initial))"
  by code_simp

end
